theory Spec2Isabelle
  imports Main "HOL-Library.Sublist" "HOL-Library.Multiset"
begin

section \<open>Python strings\<close>

text \<open>
  A Python \<^verbatim>\<open>str\<close> is a sequence of Unicode code points, so a string is a list of
  natural numbers here, one per code point. \<open>lit\<close> turns an ASCII literal of the source
  into such a list. The test \<^verbatim>\<open>x in s\<close> on strings is \<^const>\<open>sublist\<close>, and
  \<^verbatim>\<open>s.startswith(x)\<close> is \<^const>\<open>prefix\<close>.
\<close>

type_synonym str = "nat list"

definition lit :: "string \<Rightarrow> str" where
  "lit s = map of_char s"

abbreviation TAB :: nat where "TAB \<equiv> 9"
abbreviation NL :: nat where "NL \<equiv> 10"
abbreviation CR :: nat where "CR \<equiv> 13"
abbreviation SP :: nat where "SP \<equiv> 32"
abbreviation DQ :: nat where "DQ \<equiv> 34"
abbreviation SQ :: nat where "SQ \<equiv> 39"
abbreviation DOT :: nat where "DOT \<equiv> 46"
abbreviation SLASH :: nat where "SLASH \<equiv> 47"
abbreviation BSL :: nat where "BSL \<equiv> 92"
abbreviation USCORE :: nat where "USCORE \<equiv> 95"

text \<open>
  \<^verbatim>\<open>str.isspace\<close> of one character, which is also what \<^verbatim>\<open>str.strip()\<close> removes and what
  \<^verbatim>\<open>\s\<close> matches in a \<^verbatim>\<open>str\<close> pattern: U+0009..U+000D, U+001C..U+0020, U+0085, U+00A0,
  U+1680, U+2000..U+200A, U+2028, U+2029, U+202F, U+205F, U+3000.
\<close>

definition isspace :: "nat \<Rightarrow> bool" where
  "isspace c = ((9 \<le> c \<and> c \<le> 13) \<or> (28 \<le> c \<and> c \<le> 32) \<or> c = 133 \<or> c = 160 \<or> c = 5760
     \<or> (8192 \<le> c \<and> c \<le> 8202) \<or> c = 8232 \<or> c = 8233 \<or> c = 8239 \<or> c = 8287 \<or> c = 12288)"

definition str_strip :: "str \<Rightarrow> str" where
  "str_strip s = rev (dropWhile isspace (rev (dropWhile isspace s)))"

text \<open>
  \<^verbatim>\<open>s.replace(old, new)\<close>: the occurrences of \<open>old\<close> are found from left to right, each
  search starting behind the occurrence replaced before it. An empty \<open>old\<close> puts \<open>new\<close>
  before every character and at the end.
\<close>

fun str_replace :: "'a list \<Rightarrow> 'a list \<Rightarrow> 'a list \<Rightarrow> 'a list" where
  "str_replace [] new s = new @ concat (map (\<lambda>c. c # new) s)"
| "str_replace (a # old) new [] = []"
| "str_replace (a # old) new (c # cs) =
     (if prefix (a # old) (c # cs) then new @ str_replace (a # old) new (drop (length old) cs)
      else c # str_replace (a # old) new cs)"

text \<open>\<^verbatim>\<open>s.split(sep)\<close> for a separator of one character, and \<^verbatim>\<open>sep.join(parts)\<close>.\<close>

fun str_split :: "'a \<Rightarrow> 'a list \<Rightarrow> 'a list list" where
  "str_split sep [] = [[]]"
| "str_split sep (c # cs) =
     (if c = sep then [] # str_split sep cs
      else (case str_split sep cs of [] \<Rightarrow> [[c]] | x # xs \<Rightarrow> (c # x) # xs))"

fun str_join :: "'a list \<Rightarrow> 'a list list \<Rightarrow> 'a list" where
  "str_join sep [] = []"
| "str_join sep [x] = x"
| "str_join sep (x # y # ys) = x @ sep @ str_join sep (y # ys)"

section \<open>Paths (posixpath)\<close>

text \<open>
  The vault of the source is a POSIX path, so \<^verbatim>\<open>os.sep\<close> is \<^verbatim>\<open>/\<close> and \<^verbatim>\<open>os.path\<close> is
  \<^verbatim>\<open>posixpath\<close>. \<open>rfind_next c p\<close> is \<^verbatim>\<open>p.rfind(c) + 1\<close>: the index behind the last
  \<open>c\<close>, and 0 when there is none.
\<close>

definition rfind_next :: "'a \<Rightarrow> 'a list \<Rightarrow> nat" where
  "rfind_next c p = length p - length (takeWhile (\<lambda>x. x \<noteq> c) (rev p))"

definition basename :: "str \<Rightarrow> str" where
  "basename p = drop (rfind_next SLASH p) p"

definition dirname :: "str \<Rightarrow> str" where
  "dirname p =
     (let head = take (rfind_next SLASH p) p
      in if head \<noteq> [] \<and> head \<noteq> replicate (length head) SLASH
         then rev (dropWhile (\<lambda>x. x = SLASH) (rev head))
         else head)"

text \<open>
  \<^verbatim>\<open>os.path.splitext\<close>: the extension starts at the last dot, when that dot is behind the
  last slash and some character between the two is not a dot.
\<close>

definition splitext :: "str \<Rightarrow> str \<times> str" where
  "splitext p =
     (let sepIndex1 = rfind_next SLASH p; dotIndex1 = rfind_next DOT p
      in if sepIndex1 < dotIndex1 \<and>
            list_ex (\<lambda>x. x \<noteq> DOT) (take (dotIndex1 - 1 - sepIndex1) (drop sepIndex1 p))
         then (take (dotIndex1 - 1) p, drop (dotIndex1 - 1) p)
         else (p, []))"

section \<open>Attachment resolver\<close>

text \<open>
  \<^verbatim>\<open>find_linked_attachment\<close>. The attachment folder is the constant \<^verbatim>\<open>ATTACHMENT_FOLDER\<close> of
  the source, a parameter here; \<open>nfd\<close> stands for \<^verbatim>\<open>unicodedata.normalize('NFD', _)\<close>,
  whose tables are not part of the program.
\<close>

definition find_linked_attachment :: "(str \<Rightarrow> str) \<Rightarrow> str \<Rightarrow> str \<Rightarrow> str \<Rightarrow> str" where
  "find_linked_attachment nfd folder md_path image_link =
     (if \<not> sublist folder image_link
      then dirname md_path @ lit ''/'' @ folder @ lit ''/''
           @ str_replace (lit '' '') (lit ''_'') (fst (splitext (basename md_path)))
           @ lit ''.resources/'' @ basename image_link
      else dirname md_path @ lit ''/''
           @ str_join (lit ''/'')
               (filter (\<lambda>i. nfd i \<notin> set (map nfd (str_split SLASH md_path)))
                  (str_split SLASH image_link)))"

section \<open>Recognition adapter\<close>

text \<open>\<^verbatim>\<open>modify_image_path\<close>: drop every segment of the path that contains the marker.\<close>

definition modify_image_path :: "str \<Rightarrow> str" where
  "modify_image_path image_path =
     (let path_parts = str_split SLASH image_path;
          modified_parts = filter (\<lambda>part. \<not> sublist (lit ''.resources'') part) path_parts
      in str_join [SLASH] modified_parts)"

text \<open>The chain of replacements that \<^verbatim>\<open>perform_ocr\<close> applies to the text of the engine.\<close>

definition clean_ocr_text :: "str \<Rightarrow> str" where
  "clean_ocr_text ocr_text =
     str_replace [BSL] [BSL, BSL]
       (str_replace [DQ] [SQ]
         (str_replace [SP, SP] [SP]
           (str_replace [TAB] [SP]
             (str_replace [CR] []
               (str_replace [NL] [SP] (str_strip ocr_text))))))"

text \<open>
  The same cleaning, following the words of the specification: trim; newlines and carriage
  returns to a space each; tabs to spaces; every pair of spaces to one space in one pass
  from the left; double quotes to single quotes; every backslash doubled.
\<close>

fun collapse_pairs :: "str \<Rightarrow> str" where
  "collapse_pairs (a # b # cs) =
     (if a = SP \<and> b = SP then SP # collapse_pairs cs else a # collapse_pairs (b # cs))"
| "collapse_pairs cs = cs"

definition clean_spec :: "str \<Rightarrow> str" where
  "clean_spec raw =
     concat (map (\<lambda>c. if c = BSL then [BSL, BSL] else [c])
       (map (\<lambda>c. if c = DQ then SQ else c)
         (collapse_pairs
           (map (\<lambda>c. if c = TAB then SP else c)
             (map (\<lambda>c. if c = NL \<or> c = CR then SP else c) (str_strip raw))))))"

subsection \<open>The marker never survives the path correction\<close>

lemma not_sublist_sep_append:
  assumes "sep \<notin> set m" "\<not> sublist m x" "\<not> sublist m r"
  shows "\<not> sublist m (x @ sep # r)"
proof
  assume "sublist m (x @ sep # r)"
  then consider "sublist m x" | "sublist m (sep # r)"
    | xs1 xs2 where "m = xs1 @ xs2" "suffix xs1 x" "prefix xs2 (sep # r)"
    by (auto simp: sublist_append)
  then show False
  proof cases
    case 1
    then show ?thesis using assms by simp
  next
    case 2
    then have "prefix m (sep # r)" using assms by (simp add: sublist_Cons_right)
    then show ?thesis using assms by (cases m) auto
  next
    case 3
    show ?thesis
    proof (cases xs2)
      case Nil
      then show ?thesis using 3 assms by auto
    next
      case (Cons a list)
      then show ?thesis using 3 assms by auto
    qed
  qed
qed

lemma str_join_no_marker:
  assumes "m \<noteq> []" "sep \<notin> set m" "\<forall>x \<in> set xs. \<not> sublist m x"
  shows "\<not> sublist m (str_join [sep] xs)"
  using assms(3)
proof (induction xs rule: induct_list012)
  case 1
  then show ?case using assms(1) by simp
next
  case (2 x)
  then show ?case by simp
next
  case (3 x y ys)
  then show ?case using assms(2) by (simp add: not_sublist_sep_append)
qed

lemma modify_image_path_no_marker:
  "\<not> sublist (lit ''.resources'') (modify_image_path p)"
  unfolding modify_image_path_def Let_def
  by (rule str_join_no_marker) (auto simp: lit_def)

subsection \<open>\<^verbatim>\<open>perform_ocr\<close>\<close>

text \<open>
  The engine (\<^verbatim>\<open>image_to_string(Image.open(path), lang)\<close>) is a parameter: on a path it
  returns the recognised text (\<open>Inr\<close>) or raises an exception \<open>e\<close>, of which the code
  reads \<^verbatim>\<open>str(e)\<close> only (\<open>Inl\<close>). \<open>perform_ocr\<close> returns the value of the source
  (\<open>None\<close> as in Python) together with the paths it handed to the engine, in order.
  The source calls itself in the exception handler; the recursion is kept, and its
  termination is the fact that the corrected path holds no marker. The message printed
  in the last branch is not modelled.
\<close>

function perform_ocr :: "(str \<Rightarrow> str + str) \<Rightarrow> str \<Rightarrow> str option \<times> str list" where
  "perform_ocr engine image_path =
     (case engine image_path of
        Inr ocr_text \<Rightarrow> (Some (clean_ocr_text ocr_text), [image_path])
      | Inl e \<Rightarrow>
          if sublist (lit ''No such file or directory'') e \<and> sublist (lit ''.resources'') image_path
          then apsnd (Cons image_path) (perform_ocr engine (modify_image_path image_path))
          else (None, [image_path]))"
  by pat_completeness auto
termination
  by (relation "measure (\<lambda>(engine, p). if sublist (lit ''.resources'') p then 1 else 0)")
     (auto simp: modify_image_path_no_marker)

declare perform_ocr.simps [simp del]

text \<open>An engine for the examples: nothing exists under a resource folder.\<close>

definition missing_engine :: "str \<Rightarrow> str + str" where
  "missing_engine p =
     (if sublist (lit ''.resources'') p then Inl (lit ''No such file or directory'')
      else Inr (lit '' a b ''))"

section \<open>Reference extractor\<close>

text \<open>
  The file system is a map from paths to the characters stored in the files. The source
  opens every document in text mode. \<^verbatim>\<open>open(path, 'r').read()\<close> translates the line ends:
  \<^verbatim>\<open>\r\n\<close> and a lone \<^verbatim>\<open>\r\<close> are read as \<^verbatim>\<open>\n\<close> (\<open>universal_newlines\<close>).
  \<^verbatim>\<open>open(path, 'w').write(text)\<close> writes \<^verbatim>\<open>\n\<close> as \<^verbatim>\<open>os.linesep\<close>, which is \<^verbatim>\<open>\n\<close> on
  POSIX, so the text is stored as it is. \<open>OSError\<close> is the failure of \<^verbatim>\<open>open\<close>;
  \<open>TemplateError\<close> is the exception that \<^verbatim>\<open>re.sub\<close> raises on a replacement string it
  cannot parse (\<^verbatim>\<open>re.error\<close>, or \<^verbatim>\<open>IndexError\<close> for an unknown group name).
\<close>

datatype error = OSError | TemplateError

type_synonym files = "str \<rightharpoonup> str"

fun universal_newlines :: "str \<Rightarrow> str" where
  "universal_newlines (a # b # cs) =
     (if a = CR \<and> b = NL then NL # universal_newlines cs
      else if a = CR then NL # universal_newlines (b # cs)
      else a # universal_newlines (b # cs))"
| "universal_newlines [a] = (if a = CR then [NL] else [a])"
| "universal_newlines [] = []"

definition read_text :: "files \<Rightarrow> str \<Rightarrow> error + str" where
  "read_text fs path =
     (case fs path of None \<Rightarrow> Inl OSError | Some stored \<Rightarrow> Inr (universal_newlines stored))"

definition IMAGE_EXTENSIONS :: "str list" where
  "IMAGE_EXTENSIONS =
     map lit [''.png'', ''.jpg'', ''.jpeg'', ''.gif'', ''.bmp'', ''.tiff'', ''.tif'']"

text \<open>
  The pattern of \<^verbatim>\<open>extract_image_links\<close> is
  \<^verbatim>\<open>!\[\[([^]]+?(?:\.png|\.jpg|\.jpeg|\.gif|\.bmp|\.tiff|\.tif))\]\]\<close> under \<^verbatim>\<open>re.IGNORECASE\<close>.
  \<open>ci_match p c\<close>: the character \<open>p\<close> of an extension (a dot or a small ASCII letter)
  matches \<open>c\<close>; under \<^verbatim>\<open>IGNORECASE\<close> the letter \<^verbatim>\<open>i\<close> also matches U+0130 and U+0131.
  \<open>match_token\<close> is the lazy \<^verbatim>\<open>[^]]+?\<close> with what follows it: one more character that is
  not \<^verbatim>\<open>]\<close>, then the first extension that is followed by \<^verbatim>\<open>]]\<close>, else one character
  more. \<open>findall_links\<close> is \<^verbatim>\<open>re.findall\<close>: the matches from left to right, the search
  going on behind each match (a match is \<^verbatim>\<open>![[\<close>, the token and \<^verbatim>\<open>]]\<close>).
\<close>

definition ci_match :: "nat \<Rightarrow> nat \<Rightarrow> bool" where
  "ci_match p c =
     (c = p \<or> (97 \<le> p \<and> p \<le> 122 \<and> c + 32 = p) \<or> (p = 105 \<and> (c = 304 \<or> c = 305)))"

fun ci_prefix :: "str \<Rightarrow> str \<Rightarrow> bool" where
  "ci_prefix [] s = True"
| "ci_prefix (p # ps) [] = False"
| "ci_prefix (p # ps) (c # cs) = (ci_match p c \<and> ci_prefix ps cs)"

fun match_extension :: "str list \<Rightarrow> str \<Rightarrow> str option" where
  "match_extension [] s = None"
| "match_extension (ext # exts) s =
     (if ci_prefix ext s \<and> prefix (lit '']]'') (drop (length ext) s)
      then Some (take (length ext) s)
      else match_extension exts s)"

fun match_token :: "str \<Rightarrow> str option" where
  "match_token [] = None"
| "match_token (c # cs) =
     (if c = 93 then None
      else (case match_extension IMAGE_EXTENSIONS cs of
              Some ext \<Rightarrow> Some (c # ext)
            | None \<Rightarrow> map_option (Cons c) (match_token cs)))"

definition match_link :: "str \<Rightarrow> str option" where
  "match_link s = (if prefix (lit ''![['') s then match_token (drop 3 s) else None)"

fun findall_links :: "str \<Rightarrow> str list" where
  "findall_links [] = []"
| "findall_links (c # cs) =
     (case match_link (c # cs) of
        Some token \<Rightarrow> token # findall_links (drop (length token + 4) cs)
      | None \<Rightarrow> findall_links cs)"

text \<open>\<^verbatim>\<open>extract_image_links\<close>, on the file system instead of the open file.\<close>

definition extract_image_links :: "files \<Rightarrow> str \<Rightarrow> bool \<Rightarrow> error + str list" where
  "extract_image_links fs md_file overwrite =
     (case read_text fs md_file of
        Inl e \<Rightarrow> Inl e
      | Inr content \<Rightarrow>
          if \<not> overwrite \<and> sublist (lit ''OCR:'') content then Inr []
          else Inr (findall_links content))"

section \<open>Front-matter merger\<close>

text \<open>
  \<^verbatim>\<open>re.search(r'^---\n(.*?)\n---', existing_content, re.DOTALL)\<close>: without
  \<^verbatim>\<open>re.MULTILINE\<close> the \<^verbatim>\<open>^\<close> matches at the start of the text only, and the lazy group
  ends at the first \<^verbatim>\<open>\n---\<close> behind the opening line. \<open>front_matter_match\<close> returns the
  group and the text behind the match.
\<close>

fun find_first :: "'a list \<Rightarrow> 'a list \<Rightarrow> ('a list \<times> 'a list) option" where
  "find_first pat [] = (if pat = [] then Some ([], []) else None)"
| "find_first pat (c # cs) =
     (if prefix pat (c # cs) then Some ([], drop (length pat) (c # cs))
      else (case find_first pat cs of
              None \<Rightarrow> None
            | Some (before, after) \<Rightarrow> Some (c # before, after)))"

definition front_matter_match :: "str \<Rightarrow> (str \<times> str) option" where
  "front_matter_match content =
     (if prefix (lit ''---'' @ [NL]) content
      then find_first (NL # lit ''---'') (drop 4 content)
      else None)"

text \<open>
  \<^verbatim>\<open>re.sub(r'(OCR:\s*").*(")', lambda match: match.group(1) + ocr_text + match.group(2), front_matter)\<close>.
  A match at the start of \<open>s\<close> is \<^verbatim>\<open>OCR:\<close>, all the white space that follows, a double
  quote, and the rest of the line up to its last double quote (the dot does not match a
  newline here). \<open>match_ocr_field\<close> returns the first group and the length of the match;
  \<open>sub_ocr_field\<close> replaces every match, from left to right.
\<close>

definition match_ocr_field :: "str \<Rightarrow> (str \<times> nat) option" where
  "match_ocr_field s =
     (if prefix (lit ''OCR:'') s
      then (let spaces = takeWhile isspace (drop 4 s)
            in case dropWhile isspace (drop 4 s) of
                 [] \<Rightarrow> None
               | q # after_quote \<Rightarrow>
                   (let line = takeWhile (\<lambda>c. c \<noteq> NL) after_quote
                    in if q = DQ \<and> DQ \<in> set line
                       then Some (lit ''OCR:'' @ spaces @ [DQ],
                                  4 + length spaces + 1 + rfind_next DQ line)
                       else None))
      else None)"

fun sub_ocr_field :: "str \<Rightarrow> str \<Rightarrow> str" where
  "sub_ocr_field ocr_text [] = []"
| "sub_ocr_field ocr_text (c # cs) =
     (case match_ocr_field (c # cs) of
        Some (group1, n) \<Rightarrow> group1 @ ocr_text @ [DQ] @ sub_ocr_field ocr_text (drop (n - 1) cs)
      | None \<Rightarrow> c # sub_ocr_field ocr_text cs)"

text \<open>
  The replacement of the second \<^verbatim>\<open>re.sub\<close> is a string, so \<^verbatim>\<open>re\<close> parses it as a
  template (\<^verbatim>\<open>re._parser.parse_template\<close>, as of CPython 3.12): \<^verbatim>\<open>\g<n>\<close> and \<^verbatim>\<open>\n\<close>
  with digits are group references or octal escapes, \<^verbatim>\<open>\a \b \f \n \r \t \v \\\<close> are
  the characters they name, a backslash before another ASCII letter or at the end is an
  error, and a backslash before anything else stays. \<open>groups\<close> are the groups of the
  match, the whole match first.
\<close>

definition isdigit :: "nat \<Rightarrow> bool" where
  "isdigit c = (48 \<le> c \<and> c \<le> 57)"

definition isoctdigit :: "nat \<Rightarrow> bool" where
  "isoctdigit c = (48 \<le> c \<and> c \<le> 55)"

definition is_ascii_letter :: "nat \<Rightarrow> bool" where
  "is_ascii_letter c = ((65 \<le> c \<and> c \<le> 90) \<or> (97 \<le> c \<and> c \<le> 122))"

definition number :: "nat \<Rightarrow> str \<Rightarrow> nat" where
  "number base digits = foldl (\<lambda>n c. base * n + (c - 48)) 0 digits"

definition ESCAPES :: "nat \<Rightarrow> nat option" where
  "ESCAPES c =
     (if c = 97 then Some 7 else if c = 98 then Some 8 else if c = 102 then Some 12
      else if c = 110 then Some NL else if c = 114 then Some CR else if c = 116 then Some TAB
      else if c = 118 then Some 11 else if c = BSL then Some BSL else None)"

definition emit :: "str \<Rightarrow> error + str \<Rightarrow> error + str" where
  "emit x r = (case r of Inl e \<Rightarrow> Inl e | Inr s \<Rightarrow> Inr (x @ s))"

definition addgroup :: "str list \<Rightarrow> nat \<Rightarrow> error + str \<Rightarrow> error + str" where
  "addgroup groups index r =
     (if index < length groups then emit (groups ! index) r else Inl TemplateError)"

fun expand_template :: "str list \<Rightarrow> str \<Rightarrow> error + str" where
  "expand_template groups [] = Inr []"
| "expand_template groups (c # cs) =
     (if c \<noteq> BSL then emit [c] (expand_template groups cs)
      else (case cs of
        [] \<Rightarrow> Inl TemplateError
      | d # ds \<Rightarrow>
          if d = 103 then
            (case ds of
               [] \<Rightarrow> Inl TemplateError
             | lt # ns \<Rightarrow>
                 (let name = takeWhile (\<lambda>x. x \<noteq> 62) ns
                  in if lt \<noteq> 60 \<or> length name = length ns \<or> name = [] \<or> \<not> list_all isdigit name
                     then Inl TemplateError
                     else addgroup groups (number 10 name)
                            (expand_template groups (drop (length name + 1) ns))))
          else if d = 48 then
            (let more = takeWhile isoctdigit (take 2 ds)
             in emit [number 8 more] (expand_template groups (drop (length more) ds)))
          else if isdigit d then
            (case ds of
               [] \<Rightarrow> addgroup groups (number 10 [d]) (Inr [])
             | d2 # ds2 \<Rightarrow>
                 if \<not> isdigit d2 then addgroup groups (number 10 [d]) (expand_template groups ds)
                 else (case ds2 of
                    [] \<Rightarrow> addgroup groups (number 10 [d, d2]) (Inr [])
                  | d3 # ds3 \<Rightarrow>
                      if isoctdigit d \<and> isoctdigit d2 \<and> isoctdigit d3
                      then (if number 8 [d, d2, d3] > 255 then Inl TemplateError
                            else emit [number 8 [d, d2, d3]] (expand_template groups ds3))
                      else addgroup groups (number 10 [d, d2]) (expand_template groups ds2)))
          else (case ESCAPES d of
                  Some e \<Rightarrow> emit [e] (expand_template groups ds)
                | None \<Rightarrow>
                    if is_ascii_letter d then Inl TemplateError
                    else emit [BSL, d] (expand_template groups ds))))"

text \<open>
  \<^verbatim>\<open>update_markdown_file\<close>: \<open>updated_content\<close> is what lies between reading the file and
  writing it. The second \<^verbatim>\<open>re.sub\<close> (count 1, \<^verbatim>\<open>re.DOTALL\<close>) replaces the match that
  \<^verbatim>\<open>re.search\<close> found by the expanded template and keeps the rest of the text.
\<close>

definition updated_content :: "str \<Rightarrow> str \<Rightarrow> error + str" where
  "updated_content existing_content ocr_text =
     (case front_matter_match existing_content of
        Some (front_matter, rest) \<Rightarrow>
          (let updated_front_matter =
                 (if sublist (lit ''OCR:'') front_matter
                  then sub_ocr_field ocr_text front_matter
                  else front_matter @ [NL] @ lit ''OCR: '' @ [DQ] @ ocr_text @ [DQ])
           in case expand_template
                     [lit ''---'' @ [NL] @ front_matter @ [NL] @ lit ''---'', front_matter]
                     (lit ''---'' @ [NL] @ updated_front_matter @ [NL] @ lit ''---'') of
                Inl e \<Rightarrow> Inl e
              | Inr replacement \<Rightarrow> Inr (replacement @ rest))
      | None \<Rightarrow>
          Inr (lit ''---'' @ [NL] @ lit ''OCR: '' @ [DQ] @ ocr_text @ [DQ] @ [NL] @ lit ''---'' @ [NL]
               @ existing_content))"

definition update_markdown_file :: "files \<Rightarrow> str \<Rightarrow> str \<Rightarrow> error + files" where
  "update_markdown_file fs md_file ocr_text =
     (case read_text fs md_file of
        Inl e \<Rightarrow> Inl e
      | Inr existing_content \<Rightarrow>
          (case updated_content existing_content ocr_text of
             Inl e \<Rightarrow> Inl e
           | Inr new_content \<Rightarrow> Inr (fs(md_file \<mapsto> new_content))))"

section \<open>Processing one document\<close>

text \<open>
  What \<^verbatim>\<open>process_markdown_file\<close> reads from outside: the two constants of the source
  that the claims vary, the normalisation, the engine, and the time at which the task
  submitted as number \<open>i\<close> completes. \<^verbatim>\<open>as_completed\<close> yields the results in the order of
  these times, so the texts are joined in any order the pool may produce.
\<close>

record environment =
  ATTACHMENT_FOLDER :: str
  OVERWRITE_OCR :: bool
  normalize_nfd :: "str \<Rightarrow> str"
  image_to_string :: "str \<Rightarrow> str + str"
  completion_time :: "nat \<Rightarrow> nat"

definition as_completed :: "(nat \<Rightarrow> nat) \<Rightarrow> 'a list \<Rightarrow> 'a list" where
  "as_completed finish results =
     map snd (sort_key (\<lambda>(i, r). finish i) (enumerate 0 results))"

definition ocr_texts_of :: "environment \<Rightarrow> str \<Rightarrow> str list \<Rightarrow> str option list" where
  "ocr_texts_of cfg md_file image_links =
     as_completed (completion_time cfg)
       (map (\<lambda>link. fst (perform_ocr (image_to_string cfg)
                 (find_linked_attachment (normalize_nfd cfg) (ATTACHMENT_FOLDER cfg) md_file link)))
          image_links)"

definition join_texts :: "str option list \<Rightarrow> str" where
  "join_texts ocr_texts = concat (map (\<lambda>text. case text of None \<Rightarrow> [] | Some t \<Rightarrow> t) ocr_texts)"

definition process_markdown_file :: "environment \<Rightarrow> files \<Rightarrow> str \<Rightarrow> error + files" where
  "process_markdown_file cfg fs md_file =
     (case extract_image_links fs md_file (OVERWRITE_OCR cfg) of
        Inl e \<Rightarrow> Inl e
      | Inr image_links \<Rightarrow>
          (let ocr_text = join_texts (ocr_texts_of cfg md_file image_links)
           in if ocr_text \<noteq> [] then update_markdown_file fs md_file ocr_text else Inr fs))"

text \<open>Engines and an environment for the examples.\<close>

definition failing_engine :: "str \<Rightarrow> str + str" where
  "failing_engine p = Inl (lit ''No such file or directory'')"

definition example_environment :: environment where
  "example_environment =
     \<lparr>ATTACHMENT_FOLDER = lit ''Attachments'', OVERWRITE_OCR = False, normalize_nfd = id,
      image_to_string = failing_engine, completion_time = id\<rparr>"

definition partial_engine :: "str \<Rightarrow> str + str" where
  "partial_engine p =
     (if sublist (lit ''a.png'') p then Inl (lit ''cannot identify image file'')
      else Inr (lit ''hello''))"

definition partial_environment :: environment where
  "partial_environment =
     \<lparr>ATTACHMENT_FOLDER = lit ''Attachments'', OVERWRITE_OCR = False, normalize_nfd = id,
      image_to_string = partial_engine, completion_time = id\<rparr>"

section \<open>Properties of the resolver and of the adapter\<close>

lemmas eval_defs = lit_def sublist_code isspace_def str_strip_def clean_ocr_text_def
  modify_image_path_def rfind_next_def basename_def dirname_def splitext_def
  find_linked_attachment_def Let_def

text \<open>The directory and the base name of a path with a slash before its last segment.\<close>

lemma rfind_next_append:
  "c \<notin> set name \<Longrightarrow> rfind_next c (d @ c # name) = Suc (length d)"
proof -
  assume "c \<notin> set name"
  then have "takeWhile (\<lambda>x. x \<noteq> c) (rev name @ c # rev d) = rev name"
    by (subst takeWhile_append2) auto
  then show ?thesis by (simp add: rfind_next_def)
qed

lemma basename_segment:
  "SLASH \<notin> set name \<Longrightarrow> basename (d @ SLASH # name) = name"
  by (simp add: basename_def rfind_next_append)

lemma dirname_segment:
  assumes "SLASH \<notin> set name" "d \<noteq> []" "last d \<noteq> SLASH"
  shows "dirname (d @ SLASH # name) = d"
proof -
  have t: "take (Suc (length d)) (d @ SLASH # name) = d @ [SLASH]" by simp
  have "d @ [SLASH] \<noteq> replicate (length (d @ [SLASH])) SLASH"
  proof
    assume "d @ [SLASH] = replicate (length (d @ [SLASH])) SLASH"
    then have "set (d @ [SLASH]) \<subseteq> {SLASH}" by (metis set_replicate_conv_if empty_subsetI subset_refl)
    then have "last d = SLASH" using assms(2) last_in_set by fastforce
    then show False using assms(3) by simp
  qed
  moreover have "rev (dropWhile (\<lambda>x. x = SLASH) (rev (d @ [SLASH]))) = d"
    using assms(2,3) by (cases d rule: rev_cases) auto
  ultimately show ?thesis
    using assms(1) by (simp add: dirname_def rfind_next_append t Let_def del: replicate_Suc)
qed

lemma str_replace_char: "str_replace [a] [b] s = map (\<lambda>c. if c = a then b else c) s"
  by (induction s) auto

lemma str_replace_delete: "str_replace [a] [] s = filter (\<lambda>c. c \<noteq> a) s"
  by (induction s) auto

lemma str_replace_double:
  "str_replace [a] [a, a] s = concat (map (\<lambda>c. if c = a then [a, a] else [c]) s)"
  by (induction s) auto

lemma str_replace_pairs: "str_replace [SP, SP] [SP] s = collapse_pairs s"
  by (induction s rule: collapse_pairs.induct) auto

lemma str_join_split: "str_join [sep] (str_split sep s) = s"
proof (induction s)
  case Nil
  then show ?case by simp
next
  case (Cons c s)
  then show ?case
    by (cases "str_split sep s"; cases "tl (str_split sep s)") auto
qed

text \<open>
  Apart from the carriage return, which the code deletes, the cleaning is the one the
  specification describes.
\<close>

lemma clean_ocr_text_as_coded:
  "clean_ocr_text raw =
     concat (map (\<lambda>c. if c = BSL then [BSL, BSL] else [c])
       (map (\<lambda>c. if c = DQ then SQ else c)
         (collapse_pairs
           (map (\<lambda>c. if c = TAB then SP else c)
             (filter (\<lambda>c. c \<noteq> CR)
               (map (\<lambda>c. if c = NL then SP else c) (str_strip raw)))))))"
  by (simp add: clean_ocr_text_def str_replace_char str_replace_delete str_replace_double
      str_replace_pairs)

text \<open>
  C3. The cleaning step against the reference definition of the specification: they
  differ on a carriage return inside the text. On \<^verbatim>\<open>a\rb\<close> the code returns \<^verbatim>\<open>ab\<close>, the
  reference definition \<^verbatim>\<open>a b\<close>.
\<close>

theorem clean_ocr_text_carriage_return:
  "clean_ocr_text [97, CR, 98] = [97, 98] \<and> clean_spec [97, CR, 98] = [97, SP, 98]"
  by (simp add: eval_defs clean_spec_def)

text \<open>
  C4. When the attachment folder does not occur in the reference, the resolved path is
  the directory of the document, the attachment folder, the file name of the document
  without its extension and with every space turned into an underscore, followed by
  \<^verbatim>\<open>.resources\<close>, and the base name of the reference, joined by slashes. On the
  document \<^verbatim>\<open>Notes/Trip.md\<close>, the reference \<^verbatim>\<open>Trip.resources/photo.png\<close> and the folder
  \<^verbatim>\<open>Attachments\<close> this is \<^verbatim>\<open>Notes/Attachments/Trip.resources/photo.png\<close>.
\<close>

theorem find_linked_attachment_default_resource:
  "(\<not> sublist folder image_link \<longrightarrow>
      find_linked_attachment nfd folder md_path image_link =
        dirname md_path @ [SLASH] @ folder @ [SLASH]
        @ map (\<lambda>c. if c = SP then USCORE else c) (fst (splitext (basename md_path)))
        @ lit ''.resources'' @ [SLASH] @ basename image_link)
   \<and> find_linked_attachment nfd (lit ''Attachments'') (lit ''Notes/Trip.md'')
         (lit ''Trip.resources/photo.png'')
       = lit ''Notes/Attachments/Trip.resources/photo.png''"
proof -
  have "find_linked_attachment nfd (lit ''Attachments'') (lit ''Notes/Trip.md'')
         (lit ''Trip.resources/photo.png'')
       = lit ''Notes/Attachments/Trip.resources/photo.png''"
    by (simp add: eval_defs)
  moreover have "find_linked_attachment nfd folder md_path image_link =
        dirname md_path @ [SLASH] @ folder @ [SLASH]
        @ map (\<lambda>c. if c = SP then USCORE else c) (fst (splitext (basename md_path)))
        @ lit ''.resources'' @ [SLASH] @ basename image_link"
    if "\<not> sublist folder image_link"
    using that by (simp add: find_linked_attachment_def lit_def str_replace_char)
  ultimately show ?thesis by blast
qed

theorem find_linked_attachment_default_resource_witness:
  "\<not> sublist (lit ''Attachments'') (lit ''img/photo 1.png'')
   \<and> find_linked_attachment id (lit ''Attachments'') (lit ''My Notes/Road Trip.md'')
        (lit ''img/photo 1.png'')
       = lit ''My Notes/Attachments/Road_Trip.resources/photo 1.png''"
  using find_linked_attachment_default_resource
    [of "lit ''Attachments''" "lit ''img/photo 1.png''" id "lit ''My Notes/Road Trip.md''"]
  by (simp add: eval_defs)

text \<open>
  C5. When the attachment folder occurs in the reference, the reference is split at the
  slashes, the segments whose NFD form is the NFD form of no segment of the path of the
  document are kept, and they are joined by slashes behind the directory of the document
  and a slash.
\<close>

theorem find_linked_attachment_explicit_folder:
  "sublist folder image_link \<Longrightarrow>
     find_linked_attachment nfd folder md_path image_link =
       dirname md_path @ [SLASH]
       @ str_join [SLASH]
           (filter (\<lambda>seg. \<forall>part \<in> set (str_split SLASH md_path). nfd seg \<noteq> nfd part)
              (str_split SLASH image_link))"
proof -
  assume "sublist folder image_link"
  moreover have "(\<lambda>i. nfd i \<notin> set (map nfd (str_split SLASH md_path)))
      = (\<lambda>seg. \<forall>part \<in> set (str_split SLASH md_path). nfd seg \<noteq> nfd part)"
    by auto
  ultimately show ?thesis
    by (simp add: find_linked_attachment_def lit_def)
qed

theorem find_linked_attachment_explicit_folder_witness:
  "sublist (lit ''Attachments'') (lit ''Notes/Attachments/photo.png'')
   \<and> find_linked_attachment id (lit ''Attachments'') (lit ''Vault/Notes/Trip.md'')
        (lit ''Notes/Attachments/photo.png'')
       = lit ''Vault/Notes/Attachments/photo.png''"
  using find_linked_attachment_explicit_folder
    [of "lit ''Attachments''" "lit ''Notes/Attachments/photo.png''" id "lit ''Vault/Notes/Trip.md''"]
  by (simp add: eval_defs)

text \<open>
  C6. When the engine fails with a not-found message on a path that holds the marker
  \<^verbatim>\<open>.resources\<close>, the engine is called once more, on the path without the segments that
  hold the marker, and the result is the cleaned text of that call, or \<open>None\<close> when it
  fails in any way. The corrected path of any path holds no marker, so the recursion
  stops there: the engine is called at most twice.
\<close>

theorem perform_ocr_retry_once:
  "(engine p = Inl e \<and> sublist (lit ''No such file or directory'') e
      \<and> sublist (lit ''.resources'') p
      \<longrightarrow> perform_ocr engine p =
           (case engine (modify_image_path p) of
              Inr t \<Rightarrow> Some (clean_ocr_text t) | Inl e' \<Rightarrow> None,
            [p, modify_image_path p]))
   \<and> \<not> sublist (lit ''.resources'') (modify_image_path p)
   \<and> length (snd (perform_ocr engine p)) \<le> 2"
proof -
  have no: "\<not> sublist (lit ''.resources'') (modify_image_path p)"
    by (rule modify_image_path_no_marker)
  have second: "perform_ocr engine (modify_image_path p) =
      (case engine (modify_image_path p) of
         Inr t \<Rightarrow> Some (clean_ocr_text t) | Inl e' \<Rightarrow> None, [modify_image_path p])"
    using no by (subst perform_ocr.simps) (simp split: sum.splits)
  have first: "perform_ocr engine p =
      (case engine (modify_image_path p) of
         Inr t \<Rightarrow> Some (clean_ocr_text t) | Inl e' \<Rightarrow> None, [p, modify_image_path p])"
    if "engine p = Inl e" "sublist (lit ''No such file or directory'') e"
       "sublist (lit ''.resources'') p"
    using that second by (subst perform_ocr.simps) simp
  have len: "length (snd (perform_ocr engine p)) \<le> 2"
    using second by (subst perform_ocr.simps) (simp split: sum.splits)
  show ?thesis using no first len by blast
qed

theorem perform_ocr_retry_once_witness:
  "missing_engine (lit ''n/a.resources/i.png'') = Inl (lit ''No such file or directory'')
   \<and> sublist (lit ''No such file or directory'') (lit ''No such file or directory'')
   \<and> sublist (lit ''.resources'') (lit ''n/a.resources/i.png'')
   \<and> perform_ocr missing_engine (lit ''n/a.resources/i.png'')
       = (Some (lit ''a b''), [lit ''n/a.resources/i.png'', lit ''n/i.png''])"
proof -
  have a: "missing_engine (lit ''n/a.resources/i.png'') = Inl (lit ''No such file or directory'')"
    by (simp add: eval_defs missing_engine_def)
  have c: "sublist (lit ''.resources'') (lit ''n/a.resources/i.png'')"
    by (simp add: eval_defs missing_engine_def)
  have d: "modify_image_path (lit ''n/a.resources/i.png'') = lit ''n/i.png''"
    by (simp add: eval_defs missing_engine_def)
  have e: "missing_engine (lit ''n/i.png'') = Inr (lit '' a b '')"
    by (simp add: eval_defs missing_engine_def)
  have f: "clean_ocr_text (lit '' a b '') = lit ''a b''"
    by (simp add: eval_defs missing_engine_def)
  show ?thesis
    using perform_ocr_retry_once
      [of missing_engine "lit ''n/a.resources/i.png''" "lit ''No such file or directory''"]
      a c d e f by simp
qed

section \<open>Properties of the merger and of the processing of a document\<close>

lemmas eval_merge = lit_def sublist_code isspace_def updated_content_def front_matter_match_def
  match_ocr_field_def rfind_next_def ESCAPES_def isdigit_def isoctdigit_def is_ascii_letter_def
  addgroup_def number_def Let_def clean_ocr_text_def str_strip_def

subsection \<open>Completion order and aggregation\<close>

lemma set_as_completed: "set (as_completed finish results) = set results"
proof -
  have "set (as_completed finish results) = set (map snd (enumerate 0 results))"
    by (simp only: as_completed_def set_map set_sort)
  also have "\<dots> = set results" by (simp only: map_snd_enumerate)
  finally show ?thesis .
qed

lemma join_texts_all_None: "\<forall>r \<in> set rs. r = None \<Longrightarrow> join_texts rs = []"
  by (induction rs) (auto simp: join_texts_def)

lemma join_texts_successes:
  "join_texts rs = concat (map the (filter (\<lambda>r. r \<noteq> None) rs))"
  by (induction rs) (auto simp: join_texts_def)

subsection \<open>The search for the metadata block\<close>

lemma find_first_here:
  "NL \<notin> set a \<Longrightarrow> find_first (NL # p) (a @ NL # p @ r) = Some (a, r)"
  by (induction a) auto

lemma find_first_sound:
  "find_first pat s = Some (b, a) \<Longrightarrow> s = b @ pat @ a"
proof (induction s arbitrary: b)
  case Nil
  then show ?case by (auto split: if_splits)
next
  case (Cons c s)
  show ?case
  proof (cases "prefix pat (c # s)")
    case True
    then show ?thesis using Cons.prems by (auto simp: prefix_def)
  next
    case False
    then show ?thesis using Cons by (auto split: option.splits)
  qed
qed

lemma front_matter_match_sound:
  "front_matter_match content = Some (fm, rest) \<Longrightarrow>
     content = lit ''---'' @ [NL] @ fm @ [NL] @ lit ''---'' @ rest"
proof -
  assume m: "front_matter_match content = Some (fm, rest)"
  then have p: "prefix (lit ''---'' @ [NL]) content"
    and f: "find_first (NL # lit ''---'') (drop 4 content) = Some (fm, rest)"
    by (auto simp: front_matter_match_def split: if_splits)
  from p obtain t where t: "content = (lit ''---'' @ [NL]) @ t" by (auto simp: prefix_def)
  then have "drop 4 content = t" by (simp add: lit_def)
  with f have "t = fm @ (NL # lit ''---'') @ rest" by (auto dest: find_first_sound)
  with t show ?thesis by simp
qed

subsection \<open>The replacement template\<close>

lemma emit_Nil [simp]: "emit [] r = r"
  by (cases r) (simp_all add: emit_def)

lemma emit_emit [simp]: "emit x (emit y r) = emit (x @ y) r"
  by (cases r) (simp_all add: emit_def)

lemma emit_Inr [simp]: "emit x (Inr s) = Inr (x @ s)"
  by (simp add: emit_def)

text \<open>Text without a backslash stands for itself; a doubled backslash stands for one.\<close>

lemma expand_template_plain:
  "BSL \<notin> set s \<Longrightarrow> expand_template groups (s @ t) = emit s (expand_template groups t)"
  by (induction s) auto

lemma expand_template_escaped:
  "expand_template groups (str_replace [BSL] [BSL, BSL] u @ t) = emit u (expand_template groups t)"
proof (induction u)
  case Nil
  then show ?case by simp
next
  case (Cons c u)
  show ?case
  proof (cases "c = BSL")
    case True
    then show ?thesis using Cons by (simp add: ESCAPES_def isdigit_def)
  next
    case False
    then show ?thesis using Cons by simp
  qed
qed

subsection \<open>The substitution of the field\<close>

lemma drop_length_append: "drop (length a) (a @ b) = b"
  by simp

lemma not_isspace_DQ: "\<not> isspace DQ"
  by (simp add: isspace_def)

lemma sublist_middle: "sublist m (a @ m @ b)"
  unfolding sublist_def by blast

lemma match_ocr_field_here:
  assumes "\<forall>c \<in> set ws. isspace c" "NL \<notin> set old" "DQ \<notin> set (takeWhile (\<lambda>c. c \<noteq> NL) post)"
  shows "match_ocr_field (lit ''OCR:'' @ ws @ [DQ] @ old @ [DQ] @ post)
           = Some (lit ''OCR:'' @ ws @ [DQ], 4 + length ws + 1 + (length old + 1))"
proof -
  let ?s = "lit ''OCR:'' @ ws @ [DQ] @ old @ [DQ] @ post"
  have d: "drop 4 ?s = ws @ DQ # old @ DQ # post" by (simp add: lit_def)
  have tw: "takeWhile isspace (ws @ DQ # old @ DQ # post) = ws"
    using assms(1) by (subst takeWhile_append2) (auto simp: not_isspace_DQ)
  have dw: "dropWhile isspace (ws @ DQ # old @ DQ # post) = DQ # old @ DQ # post"
    using assms(1) by (subst dropWhile_append2) (auto simp: not_isspace_DQ)
  have line: "takeWhile (\<lambda>c. c \<noteq> NL) (old @ DQ # post) = old @ DQ # takeWhile (\<lambda>c. c \<noteq> NL) post"
    using assms(2) by (subst takeWhile_append2) auto
  have rf: "rfind_next DQ (old @ DQ # takeWhile (\<lambda>c. c \<noteq> NL) post) = Suc (length old)"
    using assms(3) by (rule rfind_next_append)
  have p: "prefix (lit ''OCR:'') ?s" by simp
  show ?thesis
    unfolding match_ocr_field_def
    by (simp only: p if_True d tw dw line rf Let_def list.case) simp
qed

lemma match_ocr_field_None: "\<not> prefix (lit ''OCR:'') s \<Longrightarrow> match_ocr_field s = None"
  by (simp add: match_ocr_field_def)

lemma sub_ocr_field_no_field: "\<not> sublist (lit ''OCR:'') s \<Longrightarrow> sub_ocr_field t s = s"
proof (induction s)
  case Nil
  then show ?case by simp
next
  case (Cons c s)
  then have "\<not> prefix (lit ''OCR:'') (c # s)" "\<not> sublist (lit ''OCR:'') s"
    by (auto simp: sublist_Cons_right)
  then show ?case using Cons.IH by (simp add: match_ocr_field_None)
qed

text \<open>No match starts inside a text without the key, even when the key follows it.\<close>

lemma no_overlap_OCR:
  assumes "\<not> sublist (lit ''OCR:'') (c # pre)"
  shows "\<not> prefix (lit ''OCR:'') (c # pre @ lit ''OCR:'' @ t)"
proof
  assume p: "prefix (lit ''OCR:'') (c # pre @ lit ''OCR:'' @ t)"
  have np: "\<not> prefix (lit ''OCR:'') (c # pre)"
    using assms by (auto simp: sublist_Cons_right)
  show False
  proof (cases pre)
    case Nil
    then show ?thesis using p by (simp add: lit_def)
  next
    case (Cons d pre1)
    note c1 = this
    show ?thesis
    proof (cases pre1)
      case Nil
      then show ?thesis using p c1 by (simp add: lit_def)
    next
      case (Cons e pre2)
      note c2 = this
      show ?thesis
      proof (cases pre2)
        case Nil
        then show ?thesis using p c1 c2 by (simp add: lit_def)
      next
        case (Cons f pre3)
        then show ?thesis using p np c1 c2 by (simp add: lit_def)
      qed
    qed
  qed
qed

lemma sub_ocr_field_skip:
  "\<not> sublist (lit ''OCR:'') pre \<Longrightarrow>
     sub_ocr_field t (pre @ lit ''OCR:'' @ r) = pre @ sub_ocr_field t (lit ''OCR:'' @ r)"
proof (induction pre)
  case Nil
  then show ?case by simp
next
  case (Cons c pre)
  then have "\<not> prefix (lit ''OCR:'') (c # pre @ lit ''OCR:'' @ r)"
    by (intro no_overlap_OCR)
  moreover have "\<not> sublist (lit ''OCR:'') pre"
    using Cons.prems by (auto simp: sublist_Cons_right)
  ultimately show ?case using Cons.IH by (simp add: match_ocr_field_None)
qed

lemma sub_ocr_field_here:
  assumes "\<forall>c \<in> set ws. isspace c" "NL \<notin> set old" "DQ \<notin> set (takeWhile (\<lambda>c. c \<noteq> NL) post)"
  shows "sub_ocr_field t (lit ''OCR:'' @ ws @ [DQ] @ old @ [DQ] @ post)
           = lit ''OCR:'' @ ws @ [DQ] @ t @ [DQ] @ sub_ocr_field t post"
proof -
  have m: "match_ocr_field (79 # lit ''CR:'' @ ws @ [DQ] @ old @ [DQ] @ post)
           = Some (lit ''OCR:'' @ ws @ [DQ], 4 + length ws + 1 + (length old + 1))"
    using match_ocr_field_here [OF assms] by (simp add: lit_def)
  have "drop (length (lit ''CR:'' @ ws @ [DQ] @ old @ [DQ]))
          ((lit ''CR:'' @ ws @ [DQ] @ old @ [DQ]) @ post) = post"
    by (rule drop_length_append)
  moreover have "length (lit ''CR:'' @ ws @ [DQ] @ old @ [DQ])
      = 4 + length ws + 1 + (length old + 1) - 1"
    by (simp add: lit_def)
  ultimately have d: "drop (4 + length ws + 1 + (length old + 1) - 1)
          (lit ''CR:'' @ ws @ [DQ] @ old @ [DQ] @ post) = post"
    by (simp only: append_assoc)
  have "sub_ocr_field t (79 # lit ''CR:'' @ ws @ [DQ] @ old @ [DQ] @ post)
           = lit ''OCR:'' @ ws @ [DQ] @ t @ [DQ] @ sub_ocr_field t post"
    by (simp only: sub_ocr_field.simps m option.case prod.case d) simp
  then show ?thesis by (simp add: lit_def)
qed

lemma sub_ocr_field_one:
  assumes "\<not> sublist (lit ''OCR:'') pre" "\<forall>c \<in> set ws. isspace c" "NL \<notin> set old"
    "DQ \<notin> set (takeWhile (\<lambda>c. c \<noteq> NL) post)" "\<not> sublist (lit ''OCR:'') post"
  shows "sub_ocr_field t (pre @ lit ''OCR:'' @ ws @ [DQ] @ old @ [DQ] @ post)
           = pre @ lit ''OCR:'' @ ws @ [DQ] @ t @ [DQ] @ post"
proof -
  have "sub_ocr_field t (pre @ lit ''OCR:'' @ ws @ [DQ] @ old @ [DQ] @ post)
      = pre @ sub_ocr_field t (lit ''OCR:'' @ ws @ [DQ] @ old @ [DQ] @ post)"
    using assms(1) by (rule sub_ocr_field_skip)
  also have "sub_ocr_field t (lit ''OCR:'' @ ws @ [DQ] @ old @ [DQ] @ post)
      = lit ''OCR:'' @ ws @ [DQ] @ t @ [DQ] @ sub_ocr_field t post"
    using assms(2,3,4) by (rule sub_ocr_field_here)
  also have "sub_ocr_field t post = post"
    using assms(5) by (rule sub_ocr_field_no_field)
  finally show ?thesis .
qed

text \<open>
  When the key is in the front matter and the substitution finds no quoted value, a
  front matter without a backslash is written back as it was.
\<close>

lemma updated_content_field_unmatched:
  assumes "front_matter_match content = Some (fm, rest)" and "sublist (lit ''OCR:'') fm"
    and "sub_ocr_field t fm = fm" and "BSL \<notin> set fm"
  shows "updated_content content t = Inr content"
proof -
  have "BSL \<notin> set (lit ''---'' @ [NL] @ fm @ [NL] @ lit ''---'')"
    using assms(4) by (simp add: lit_def)
  then have "expand_template g ((lit ''---'' @ [NL] @ fm @ [NL] @ lit ''---'') @ [])
      = emit (lit ''---'' @ [NL] @ fm @ [NL] @ lit ''---'') (expand_template g [])" for g
    by (rule expand_template_plain)
  then have "expand_template g (lit ''---'' @ [NL] @ fm @ [NL] @ lit ''---'')
      = Inr (lit ''---'' @ [NL] @ fm @ [NL] @ lit ''---'')" for g
    by simp
  then have "updated_content content t = Inr (lit ''---'' @ [NL] @ fm @ [NL] @ lit ''---'' @ rest)"
    unfolding updated_content_def using assms(1,2,3) by simp
  then show ?thesis using front_matter_match_sound [OF assms(1)] by simp
qed

text \<open>
  A second merge of the same text into a document that had no metadata block changes
  nothing, when the text holds no backslash (and no newline).
\<close>

lemma updated_content_twice_plain:
  assumes "front_matter_match content = None" and "NL \<notin> set t" and "BSL \<notin> set t"
  shows "updated_content
           (lit ''---'' @ [NL] @ lit ''OCR: '' @ [DQ] @ t @ [DQ] @ [NL] @ lit ''---'' @ [NL] @ content) t
         = Inr (lit ''---'' @ [NL] @ lit ''OCR: '' @ [DQ] @ t @ [DQ] @ [NL] @ lit ''---'' @ [NL] @ content)"
proof -
  let ?fm = "lit ''OCR: '' @ [DQ] @ t @ [DQ]"
  let ?doc = "lit ''---'' @ [NL] @ ?fm @ [NL] @ lit ''---'' @ [NL] @ content"
  have "NL \<notin> set ?fm" using assms(2) by (simp add: lit_def)
  then have "find_first (NL # lit ''---'') (?fm @ NL # lit ''---'' @ (NL # content))
       = Some (?fm, NL # content)"
    by (rule find_first_here)
  then have m: "front_matter_match ?doc = Some (?fm, NL # content)"
    by (simp add: front_matter_match_def lit_def)
  have has: "sublist (lit ''OCR:'') ?fm"
    using sublist_middle [of "lit ''OCR:''" "[]" "[SP, DQ] @ t @ [DQ]"] by (simp add: lit_def)
  have "sub_ocr_field t ([] @ lit ''OCR:'' @ [SP] @ [DQ] @ t @ [DQ] @ [])
      = [] @ lit ''OCR:'' @ [SP] @ [DQ] @ t @ [DQ] @ []"
    using assms(2) by (intro sub_ocr_field_one) (simp_all add: isspace_def lit_def)
  then have same: "sub_ocr_field t ?fm = ?fm" by (simp add: lit_def)
  have "BSL \<notin> set ?fm" using assms(3) by (simp add: lit_def)
  with m has same have "updated_content ?doc t = Inr ?doc"
    by (rule updated_content_field_unmatched)
  then show ?thesis by simp
qed

lemma set_collapse_pairs: "set (collapse_pairs s) \<subseteq> set s"
  by (induction s rule: collapse_pairs.induct) auto

text \<open>A cleaned text holds no newline, and neither does a text joined from cleaned texts.\<close>

lemma clean_ocr_text_no_newline: "NL \<notin> set (clean_ocr_text raw)"
proof -
  let ?inner = "map (\<lambda>c. if c = TAB then SP else c)
             (filter (\<lambda>c. c \<noteq> CR) (map (\<lambda>c. if c = NL then SP else c) (str_strip raw)))"
  have "NL \<notin> set ?inner" by auto
  then have "NL \<notin> set (collapse_pairs ?inner)" using set_collapse_pairs by blast
  then show ?thesis unfolding clean_ocr_text_as_coded by auto
qed

lemma join_texts_no_newline:
  "\<forall>r \<in> set rs. \<forall>t. r = Some t \<longrightarrow> NL \<notin> set t \<Longrightarrow> NL \<notin> set (join_texts rs)"
  by (auto simp: join_texts_def split: option.splits)

text \<open>
  Where the text before and behind the value of the field holds no backslash, merging a
  text \<open>u\<close> with its backslashes doubled puts \<open>u\<close> in the place of the old value and
  keeps everything else.
\<close>

lemma updated_content_replaces_field:
  assumes "front_matter_match content = Some (fm, rest)"
    and "fm = pre @ lit ''OCR:'' @ ws @ [DQ] @ old @ [DQ] @ post"
    and "\<not> sublist (lit ''OCR:'') pre" and "\<forall>c \<in> set ws. isspace c" and "NL \<notin> set old"
    and "DQ \<notin> set (takeWhile (\<lambda>c. c \<noteq> NL) post)" and "\<not> sublist (lit ''OCR:'') post"
    and "BSL \<notin> set pre" and "BSL \<notin> set post"
  shows "content = lit ''---'' @ [NL] @ pre @ lit ''OCR:'' @ ws @ [DQ] @ old @ [DQ] @ post
                     @ [NL] @ lit ''---'' @ rest
       \<and> updated_content content (str_replace [BSL] [BSL, BSL] u)
           = Inr (lit ''---'' @ [NL] @ pre @ lit ''OCR:'' @ ws @ [DQ] @ u @ [DQ] @ post
                  @ [NL] @ lit ''---'' @ rest)"
proof -
  let ?t = "str_replace [BSL] [BSL, BSL] u"
  let ?a = "lit ''---'' @ [NL] @ pre @ lit ''OCR:'' @ ws @ [DQ]"
  let ?b = "[DQ] @ post @ [NL] @ lit ''---''"
  have shape: "content = lit ''---'' @ [NL] @ fm @ [NL] @ lit ''---'' @ rest"
    using assms(1) by (rule front_matter_match_sound)
  have has: "sublist (lit ''OCR:'') fm"
    unfolding assms(2) by (rule sublist_middle)
  have sub: "sub_ocr_field ?t fm = pre @ lit ''OCR:'' @ ws @ [DQ] @ ?t @ [DQ] @ post"
    unfolding assms(2) using assms(3-7) by (rule sub_ocr_field_one)
  have "BSL \<notin> set ws" using assms(4) by (auto simp: isspace_def)
  then have a: "BSL \<notin> set ?a" and b: "BSL \<notin> set ?b"
    using assms(8,9) by (simp_all add: lit_def)
  have "expand_template g (?a @ ?t @ ?b @ []) = emit ?a (emit u (emit ?b (Inr [])))" for g
    by (simp only: expand_template_plain [OF a] expand_template_escaped
        expand_template_plain [OF b] expand_template.simps(1))
  then have ex: "expand_template g (lit ''---'' @ [NL] @ sub_ocr_field ?t fm @ [NL] @ lit ''---'')
      = Inr (lit ''---'' @ [NL] @ pre @ lit ''OCR:'' @ ws @ [DQ] @ u @ [DQ] @ post @ [NL] @ lit ''---'')" for g
    by (simp add: sub)
  have "updated_content content ?t
           = Inr (lit ''---'' @ [NL] @ pre @ lit ''OCR:'' @ ws @ [DQ] @ u @ [DQ] @ post
                  @ [NL] @ lit ''---'' @ rest)"
    unfolding updated_content_def using assms(1) has by (simp add: ex [simplified])
  then show ?thesis using shape assms(2) by simp
qed

subsection \<open>Reading in text mode\<close>

lemma universal_newlines_Cons:
  "a \<noteq> CR \<Longrightarrow> universal_newlines (a # s) = a # universal_newlines s"
  by (cases s) simp_all

lemma universal_newlines_plain: "CR \<notin> set s \<Longrightarrow> universal_newlines s = s"
  by (induction s) (simp_all add: universal_newlines_Cons)

lemma universal_newlines_append_plain:
  "CR \<notin> set m \<Longrightarrow> universal_newlines (m @ s) = m @ universal_newlines s"
  by (induction m) (simp_all add: universal_newlines_Cons)

lemma universal_newlines_append:
  "s = [] \<or> hd s \<noteq> NL \<Longrightarrow>
     universal_newlines (p @ s) = universal_newlines p @ universal_newlines s"
proof (induction p rule: universal_newlines.induct)
  case (1 a b cs)
  then show ?case by simp
next
  case (2 a)
  then show ?case by (cases s) auto
next
  case 3
  then show ?case by simp
qed

text \<open>A text without line ends that occurs in a file occurs in what is read from it.\<close>

lemma sublist_universal_newlines:
  assumes "sublist m s" and "CR \<notin> set m" and "NL \<notin> set m"
  shows "sublist m (universal_newlines s)"
proof (cases m)
  case Nil
  then show ?thesis by simp
next
  case (Cons c m')
  from assms(1) obtain p q where s: "s = p @ m @ q" by (auto simp: sublist_def)
  have "m @ q = [] \<or> hd (m @ q) \<noteq> NL"
    using assms(3) Cons by auto
  then have "universal_newlines (p @ m @ q)
      = universal_newlines p @ universal_newlines (m @ q)"
    by (rule universal_newlines_append)
  also have "universal_newlines (m @ q) = m @ universal_newlines q"
    using assms(2) by (rule universal_newlines_append_plain)
  finally show ?thesis unfolding s by (simp add: sublist_middle)
qed

lemma mset_as_completed: "mset (as_completed finish results) = mset results"
proof -
  have "mset (as_completed finish results) = mset (map snd (enumerate 0 results))"
    by (simp only: as_completed_def mset_map mset_sort)
  then show ?thesis by (simp only: map_snd_enumerate)
qed

subsection \<open>The claims\<close>

text \<open>
  C1. When the text of a document contains \<^verbatim>\<open>OCR:\<close> and the overwrite flag is false, the
  extractor returns the empty list of references, and processing the document returns
  the file system as it was: nothing is written.
\<close>

theorem process_markdown_file_marker_unchanged:
  "fs md_file = Some content \<Longrightarrow> sublist (lit ''OCR:'') content \<Longrightarrow> \<not> OVERWRITE_OCR cfg \<Longrightarrow>
     extract_image_links fs md_file (OVERWRITE_OCR cfg) = Inr []
     \<and> process_markdown_file cfg fs md_file = Inr fs"
proof -
  assume a: "fs md_file = Some content" "sublist (lit ''OCR:'') content" "\<not> OVERWRITE_OCR cfg"
  have "sublist (lit ''OCR:'') (universal_newlines content)"
    using a(2) by (rule sublist_universal_newlines) (simp_all add: lit_def)
  then have "extract_image_links fs md_file (OVERWRITE_OCR cfg) = Inr []"
    using a(1,3) by (simp add: extract_image_links_def read_text_def)
  then show ?thesis
    by (simp add: process_markdown_file_def ocr_texts_of_def as_completed_def join_texts_def)
qed

theorem process_markdown_file_marker_unchanged_witness:
  "[lit ''n.md'' \<mapsto> lit ''![[a.png]] OCR: x''] (lit ''n.md'') = Some (lit ''![[a.png]] OCR: x'')
   \<and> sublist (lit ''OCR:'') (lit ''![[a.png]] OCR: x'')
   \<and> \<not> OVERWRITE_OCR example_environment
   \<and> process_markdown_file example_environment [lit ''n.md'' \<mapsto> lit ''![[a.png]] OCR: x'']
         (lit ''n.md'')
       = Inr [lit ''n.md'' \<mapsto> lit ''![[a.png]] OCR: x'']"
proof -
  have a: "[lit ''n.md'' \<mapsto> lit ''![[a.png]] OCR: x''] (lit ''n.md'') = Some (lit ''![[a.png]] OCR: x'')"
    by simp
  have b: "sublist (lit ''OCR:'') (lit ''![[a.png]] OCR: x'')"
    by (simp add: lit_def sublist_code)
  have c: "\<not> OVERWRITE_OCR example_environment"
    by (simp add: example_environment_def)
  show ?thesis
    using process_markdown_file_marker_unchanged
      [of "[lit ''n.md'' \<mapsto> lit ''![[a.png]] OCR: x'']" "lit ''n.md''"
          "lit ''![[a.png]] OCR: x''" example_environment] a b c
    by simp
qed

text \<open>
  C2. Merging the same text twice. For the cleaned text of \<^verbatim>\<open>a\b\<close>, which is \<^verbatim>\<open>a\\b\<close>, and
  the document \<^verbatim>\<open>body\<close>, the first merge writes the field \<^verbatim>\<open>OCR: "a\\b"\<close> and the second
  merge, on the result of the first, writes \<^verbatim>\<open>OCR: "a\b"\<close>: the two documents differ.
\<close>

theorem updated_content_twice_differs:
  "clean_ocr_text [97, BSL, 98] = [97, BSL, BSL, 98]
   \<and> updated_content (lit ''body'') [97, BSL, BSL, 98]
       = Inr (lit ''---'' @ [NL] @ lit ''OCR: '' @ [DQ] @ [97, BSL, BSL, 98] @ [DQ, NL] @ lit ''---'' @ [NL]
              @ lit ''body'')
   \<and> updated_content
        (lit ''---'' @ [NL] @ lit ''OCR: '' @ [DQ] @ [97, BSL, BSL, 98] @ [DQ, NL] @ lit ''---'' @ [NL]
         @ lit ''body'')
        [97, BSL, BSL, 98]
       = Inr (lit ''---'' @ [NL] @ lit ''OCR: '' @ [DQ] @ [97, BSL, 98] @ [DQ, NL] @ lit ''---'' @ [NL]
              @ lit ''body'')"
  by (simp add: eval_merge)

text \<open>
  C7. Whatever the recognition of the single attachments returns, the document is
  processed to its end: the results \<open>None\<close> are left out, the texts of the other
  attachments are joined, and the document is merged with that text, or left as it is
  when the text is empty; every attachment is recognised, one result for each
  reference. When the recognition of every attachment returns \<open>None\<close>, the joined text
  is empty and processing the document returns the file system as it was.
\<close>

theorem process_markdown_file_failures_skipped:
  "(extract_image_links fs md_file (OVERWRITE_OCR cfg) = Inr image_links \<longrightarrow>
      process_markdown_file cfg fs md_file =
        (if concat (map the (filter (\<lambda>r. r \<noteq> None) (ocr_texts_of cfg md_file image_links))) = []
         then Inr fs
         else update_markdown_file fs md_file
                (concat (map the (filter (\<lambda>r. r \<noteq> None)
                   (ocr_texts_of cfg md_file image_links))))))
   \<and> mset (ocr_texts_of cfg md_file image_links)
       = mset (map (\<lambda>link. fst (perform_ocr (image_to_string cfg)
                      (find_linked_attachment (normalize_nfd cfg) (ATTACHMENT_FOLDER cfg)
                         md_file link))) image_links)
   \<and> (extract_image_links fs md_file (OVERWRITE_OCR cfg) = Inr image_links \<and>
       (\<forall>link \<in> set image_links.
          fst (perform_ocr (image_to_string cfg)
                (find_linked_attachment (normalize_nfd cfg) (ATTACHMENT_FOLDER cfg) md_file link))
            = None)
        \<longrightarrow> join_texts (ocr_texts_of cfg md_file image_links) = []
            \<and> process_markdown_file cfg fs md_file = Inr fs)"
proof -
  have general: "process_markdown_file cfg fs md_file =
        (if concat (map the (filter (\<lambda>r. r \<noteq> None) (ocr_texts_of cfg md_file image_links))) = []
         then Inr fs
         else update_markdown_file fs md_file
                (concat (map the (filter (\<lambda>r. r \<noteq> None)
                   (ocr_texts_of cfg md_file image_links)))))"
    if ex: "extract_image_links fs md_file (OVERWRITE_OCR cfg) = Inr image_links"
    using ex
    by (simp only: process_markdown_file_def sum.case Let_def
        join_texts_successes [symmetric] if_not_P) (simp split: if_splits)
  have each: "mset (ocr_texts_of cfg md_file image_links)
       = mset (map (\<lambda>link. fst (perform_ocr (image_to_string cfg)
                      (find_linked_attachment (normalize_nfd cfg) (ATTACHMENT_FOLDER cfg)
                         md_file link))) image_links)"
    by (simp only: ocr_texts_of_def mset_as_completed)
  have failed: "join_texts (ocr_texts_of cfg md_file image_links) = []
         \<and> process_markdown_file cfg fs md_file = Inr fs"
    if ex: "extract_image_links fs md_file (OVERWRITE_OCR cfg) = Inr image_links"
      and fail: "\<forall>link \<in> set image_links.
       fst (perform_ocr (image_to_string cfg)
             (find_linked_attachment (normalize_nfd cfg) (ATTACHMENT_FOLDER cfg) md_file link))
         = None"
  proof -
    have "\<forall>r \<in> set (ocr_texts_of cfg md_file image_links). r = None"
      using fail by (auto simp: ocr_texts_of_def set_as_completed)
    then have "join_texts (ocr_texts_of cfg md_file image_links) = []"
      by (rule join_texts_all_None)
    then show ?thesis using ex by (simp add: process_markdown_file_def)
  qed
  show ?thesis using general each failed by blast
qed

theorem process_markdown_file_failures_skipped_witness:
  "extract_image_links [lit ''n.md'' \<mapsto> lit ''![[a.png]]![[b.png]]''] (lit ''n.md'')
       (OVERWRITE_OCR partial_environment) = Inr [lit ''a.png'', lit ''b.png'']
   \<and> ocr_texts_of partial_environment (lit ''n.md'') [lit ''a.png'', lit ''b.png'']
       = [None, Some (lit ''hello'')]
   \<and> process_markdown_file partial_environment [lit ''n.md'' \<mapsto> lit ''![[a.png]]![[b.png]]'']
         (lit ''n.md'')
       = Inr [lit ''n.md'' \<mapsto>
                lit ''---'' @ [NL] @ lit ''OCR: '' @ [DQ] @ lit ''hello'' @ [DQ, NL] @ lit ''---'' @ [NL]
                @ lit ''![[a.png]]![[b.png]]'']
   \<and> extract_image_links [lit ''n.md'' \<mapsto> lit ''see ![[a.png]]''] (lit ''n.md'')
       (OVERWRITE_OCR example_environment) = Inr [lit ''a.png'']
   \<and> fst (perform_ocr (image_to_string example_environment)
            (find_linked_attachment (normalize_nfd example_environment)
               (ATTACHMENT_FOLDER example_environment) (lit ''n.md'') (lit ''a.png''))) = None
   \<and> process_markdown_file example_environment [lit ''n.md'' \<mapsto> lit ''see ![[a.png]]'']
         (lit ''n.md'')
       = Inr [lit ''n.md'' \<mapsto> lit ''see ![[a.png]]'']"
proof -
  have a: "extract_image_links [lit ''n.md'' \<mapsto> lit ''see ![[a.png]]''] (lit ''n.md'')
       (OVERWRITE_OCR example_environment) = Inr [lit ''a.png'']"
    by (simp add: extract_image_links_def read_text_def example_environment_def lit_def
        sublist_code match_link_def IMAGE_EXTENSIONS_def ci_match_def)
  have b: "\<forall>link \<in> set [lit ''a.png''].
         fst (perform_ocr (image_to_string example_environment)
               (find_linked_attachment (normalize_nfd example_environment)
                  (ATTACHMENT_FOLDER example_environment) (lit ''n.md'') link)) = None"
    by (simp add: perform_ocr.simps [of failing_engine] example_environment_def
        failing_engine_def modify_image_path_no_marker)
  have c: "extract_image_links [lit ''n.md'' \<mapsto> lit ''![[a.png]]![[b.png]]''] (lit ''n.md'')
       (OVERWRITE_OCR partial_environment) = Inr [lit ''a.png'', lit ''b.png'']"
    by (simp add: extract_image_links_def read_text_def partial_environment_def lit_def
        sublist_code match_link_def IMAGE_EXTENSIONS_def ci_match_def)
  have pa: "find_linked_attachment id (lit ''Attachments'') (lit ''n.md'') (lit ''a.png'')
      = lit ''/Attachments/n.resources/a.png''"
    by (simp add: eval_defs)
  have pb: "find_linked_attachment id (lit ''Attachments'') (lit ''n.md'') (lit ''b.png'')
      = lit ''/Attachments/n.resources/b.png''"
    by (simp add: eval_defs)
  have ra: "perform_ocr partial_engine (lit ''/Attachments/n.resources/a.png'')
      = (None, [lit ''/Attachments/n.resources/a.png''])"
    by (simp add: perform_ocr.simps [of partial_engine] partial_engine_def lit_def sublist_code)
  have rb: "perform_ocr partial_engine (lit ''/Attachments/n.resources/b.png'')
      = (Some (lit ''hello''), [lit ''/Attachments/n.resources/b.png''])"
    by (simp add: perform_ocr.simps [of partial_engine] partial_engine_def eval_defs)
  have d: "ocr_texts_of partial_environment (lit ''n.md'') [lit ''a.png'', lit ''b.png'']
       = [None, Some (lit ''hello'')]"
    by (simp add: ocr_texts_of_def partial_environment_def pa pb ra rb as_completed_def
        enumerate_simps sort_key_simps)
  have e: "update_markdown_file [lit ''n.md'' \<mapsto> lit ''![[a.png]]![[b.png]]''] (lit ''n.md'')
         (lit ''hello'')
       = Inr [lit ''n.md'' \<mapsto>
                lit ''---'' @ [NL] @ lit ''OCR: '' @ [DQ] @ lit ''hello'' @ [DQ, NL] @ lit ''---'' @ [NL]
                @ lit ''![[a.png]]![[b.png]]'']"
    by (simp add: update_markdown_file_def read_text_def eval_merge)
  have f: "lit ''hello'' \<noteq> []" by (simp add: lit_def)
  show ?thesis
    using process_markdown_file_failures_skipped
      [of "[lit ''n.md'' \<mapsto> lit ''![[a.png]]![[b.png]]'']" "lit ''n.md''" partial_environment
          "[lit ''a.png'', lit ''b.png'']"]
      process_markdown_file_failures_skipped
      [of "[lit ''n.md'' \<mapsto> lit ''see ![[a.png]]'']" "lit ''n.md''" example_environment
          "[lit ''a.png'']"] a b c d e f
    by simp
qed

text \<open>
  C8. The block holds the line \<^verbatim>\<open>path: C:\temp\<close> before the field \<^verbatim>\<open>OCR: "old"\<close>. Merging
  the text \<^verbatim>\<open>new\<close> replaces the value of the field, and it also rewrites the other line:
  the template processing of \<^verbatim>\<open>re.sub\<close> turns its \<^verbatim>\<open>\t\<close> into a tab character.
\<close>

theorem updated_content_other_line_backslash:
  "front_matter_match
     (lit ''---'' @ [NL] @ lit ''path: C:'' @ [BSL] @ lit ''temp'' @ [NL] @ lit ''OCR: '' @ [DQ]
      @ lit ''old'' @ [DQ, NL] @ lit ''---'' @ [NL] @ lit ''body'')
     = Some (lit ''path: C:'' @ [BSL] @ lit ''temp'' @ [NL] @ lit ''OCR: '' @ [DQ] @ lit ''old'' @ [DQ],
             NL # lit ''body'')
   \<and> updated_content
       (lit ''---'' @ [NL] @ lit ''path: C:'' @ [BSL] @ lit ''temp'' @ [NL] @ lit ''OCR: '' @ [DQ]
        @ lit ''old'' @ [DQ, NL] @ lit ''---'' @ [NL] @ lit ''body'')
       (lit ''new'')
     = Inr (lit ''---'' @ [NL] @ lit ''path: C:'' @ [TAB] @ lit ''emp'' @ [NL] @ lit ''OCR: '' @ [DQ]
            @ lit ''new'' @ [DQ, NL] @ lit ''---'' @ [NL] @ lit ''body'')"
  by (simp add: eval_merge)

text \<open>
  C9, as amended. When the document, as it is read, has no metadata block, the merge
  writes the block that holds the field with the text \<open>t\<close> in quotes and nothing else,
  and behind it the document as it was read: with every \<^verbatim>\<open>\r\n\<close> and every lone \<^verbatim>\<open>\r\<close>
  turned into \<^verbatim>\<open>\n\<close>. A document without carriage return is kept character for
  character. When \<open>t\<close> holds no newline, as every cleaned text does, the new block is the
  metadata block of the text written and its front matter is that field.
\<close>

theorem update_markdown_file_prepends_block:
  "fs md_file = Some content \<Longrightarrow> front_matter_match (universal_newlines content) = None \<Longrightarrow>
     update_markdown_file fs md_file t =
       Inr (fs(md_file \<mapsto>
              lit ''---'' @ [NL] @ lit ''OCR: '' @ [DQ] @ t @ [DQ] @ [NL] @ lit ''---'' @ [NL]
              @ universal_newlines content))
     \<and> (CR \<notin> set content \<longrightarrow> universal_newlines content = content)
     \<and> (NL \<notin> set t \<longrightarrow>
          front_matter_match
            (lit ''---'' @ [NL] @ lit ''OCR: '' @ [DQ] @ t @ [DQ] @ [NL] @ lit ''---'' @ [NL]
             @ universal_newlines content)
            = Some (lit ''OCR: '' @ [DQ] @ t @ [DQ], NL # universal_newlines content))"
proof -
  assume a: "fs md_file = Some content" "front_matter_match (universal_newlines content) = None"
  let ?body = "universal_newlines content"
  have 1: "update_markdown_file fs md_file t =
       Inr (fs(md_file \<mapsto>
              lit ''---'' @ [NL] @ lit ''OCR: '' @ [DQ] @ t @ [DQ] @ [NL] @ lit ''---'' @ [NL] @ ?body))"
    using a by (simp add: update_markdown_file_def read_text_def updated_content_def)
  have 2: "front_matter_match
            (lit ''---'' @ [NL] @ lit ''OCR: '' @ [DQ] @ t @ [DQ] @ [NL] @ lit ''---'' @ [NL] @ ?body)
            = Some (lit ''OCR: '' @ [DQ] @ t @ [DQ], NL # ?body)" if "NL \<notin> set t"
  proof -
    have "NL \<notin> set (lit ''OCR: '' @ [DQ] @ t @ [DQ])" using that by (simp add: lit_def)
    then have "find_first (NL # lit ''---'')
        ((lit ''OCR: '' @ [DQ] @ t @ [DQ]) @ NL # lit ''---'' @ (NL # ?body))
       = Some (lit ''OCR: '' @ [DQ] @ t @ [DQ], NL # ?body)"
      by (rule find_first_here)
    then show ?thesis by (simp add: front_matter_match_def lit_def)
  qed
  show ?thesis using 1 2 universal_newlines_plain by blast
qed

theorem update_markdown_file_prepends_block_witness:
  "[lit ''n.md'' \<mapsto> lit ''body''] (lit ''n.md'') = Some (lit ''body'')
   \<and> front_matter_match (universal_newlines (lit ''body'')) = None
   \<and> CR \<notin> set (lit ''body'') \<and> NL \<notin> set (lit ''text'')
   \<and> update_markdown_file [lit ''n.md'' \<mapsto> lit ''body''] (lit ''n.md'') (lit ''text'')
       = Inr [lit ''n.md'' \<mapsto>
                lit ''---'' @ [NL] @ lit ''OCR: '' @ [DQ] @ lit ''text'' @ [DQ] @ [NL] @ lit ''---''
                @ [NL] @ lit ''body'']
   \<and> front_matter_match
       (lit ''---'' @ [NL] @ lit ''OCR: '' @ [DQ] @ lit ''text'' @ [DQ] @ [NL] @ lit ''---''
        @ [NL] @ lit ''body'')
       = Some (lit ''OCR: '' @ [DQ] @ lit ''text'' @ [DQ], NL # lit ''body'')"
proof -
  have a: "[lit ''n.md'' \<mapsto> lit ''body''] (lit ''n.md'') = Some (lit ''body'')"
    by simp
  have u: "universal_newlines (lit ''body'') = lit ''body''"
    by (simp add: lit_def)
  have b: "front_matter_match (universal_newlines (lit ''body'')) = None"
    by (simp add: u) (simp add: eval_merge)
  have c: "NL \<notin> set (lit ''text'')" "CR \<notin> set (lit ''body'')"
    by (simp_all add: lit_def)
  show ?thesis
    using update_markdown_file_prepends_block
      [of "[lit ''n.md'' \<mapsto> lit ''body'']" "lit ''n.md''" "lit ''body''" "lit ''text''"] a b c
    by (simp add: u)
qed

text \<open>
  C9 as stated fails on a document with a carriage return: \<^verbatim>\<open>body\r\nmore\<close> is not
  behind the new block, \<^verbatim>\<open>body\nmore\<close> is.
\<close>

theorem update_markdown_file_body_counterexample:
  "update_markdown_file [lit ''n.md'' \<mapsto> lit ''body'' @ [CR, NL] @ lit ''more''] (lit ''n.md'')
       (lit ''text'')
     = Inr [lit ''n.md'' \<mapsto>
              lit ''---'' @ [NL] @ lit ''OCR: '' @ [DQ] @ lit ''text'' @ [DQ] @ [NL] @ lit ''---''
              @ [NL] @ lit ''body'' @ [NL] @ lit ''more'']
   \<and> front_matter_match (lit ''body'' @ [CR, NL] @ lit ''more'') = None
   \<and> lit ''---'' @ [NL] @ lit ''OCR: '' @ [DQ] @ lit ''text'' @ [DQ] @ [NL] @ lit ''---''
        @ [NL] @ lit ''body'' @ [NL] @ lit ''more''
      \<noteq> lit ''---'' @ [NL] @ lit ''OCR: '' @ [DQ] @ lit ''text'' @ [DQ] @ [NL] @ lit ''---''
        @ [NL] @ lit ''body'' @ [CR, NL] @ lit ''more''"
  by (simp add: update_markdown_file_def read_text_def eval_merge)

text \<open>
  C10. The front matter \<^verbatim>\<open>OCR: a\\b\<close> contains \<^verbatim>\<open>OCR:\<close> with no quoted value, and the
  substitution of the field leaves it as it is; the document that is written back has
  the front matter \<^verbatim>\<open>OCR: a\b\<close>, with one backslash less.
\<close>

theorem updated_content_unquoted_field_backslash:
  "front_matter_match (lit ''---'' @ [NL] @ lit ''OCR: a'' @ [BSL, BSL] @ lit ''b'' @ [NL] @ lit ''---''
       @ [NL] @ lit ''body'')
     = Some (lit ''OCR: a'' @ [BSL, BSL] @ lit ''b'', NL # lit ''body'')
   \<and> sublist (lit ''OCR:'') (lit ''OCR: a'' @ [BSL, BSL] @ lit ''b'')
   \<and> sub_ocr_field (lit ''new'') (lit ''OCR: a'' @ [BSL, BSL] @ lit ''b'')
       = lit ''OCR: a'' @ [BSL, BSL] @ lit ''b''
   \<and> updated_content (lit ''---'' @ [NL] @ lit ''OCR: a'' @ [BSL, BSL] @ lit ''b'' @ [NL] @ lit ''---''
       @ [NL] @ lit ''body'') (lit ''new'')
     = Inr (lit ''---'' @ [NL] @ lit ''OCR: a'' @ [BSL] @ lit ''b'' @ [NL] @ lit ''---'' @ [NL] @ lit ''body'')"
  by (simp add: eval_merge)

end
